theory Spec2Isabelle
  imports
    Main
    "HOL-Library.Word"
    "HOL-Library.Multiset"
    "HOL-Library.Char_ord"
    "HOL-Library.List_Lexorder"
begin

unbundle bit_operations_syntax

section \<open>Data model of package merkle (pkg/merkle/client.go)\<close>

text \<open>
  A Go \<open>[]byte\<close> is either the nil slice or a slice with elements; the two are
  told apart by \<open>== nil\<close> but have the same length and the same elements when the
  slice is empty. \<open>None\<close> is the nil slice.
\<close>

type_synonym byte = "8 word"
type_synonym bytes = "byte list option"

definition elems :: "bytes \<Rightarrow> byte list" where
  "elems b = (case b of None \<Rightarrow> [] | Some xs \<Rightarrow> xs)"

text \<open>\<open>append(a, b...)\<close>: appending no element returns \<open>a\<close> itself, nil included.\<close>

definition append_bytes :: "bytes \<Rightarrow> bytes \<Rightarrow> bytes" where
  "append_bytes a b = (if elems b = [] then a else Some (elems a @ elems b))"

text \<open>
  \<open>crypto/sha256\<close> is not part of the repository: the digest function is a parameter
  \<open>sha256\<close> of every definition that hashes.
\<close>

type_synonym hasher = "byte list \<Rightarrow> byte list"

definition hashData :: "hasher \<Rightarrow> bytes \<Rightarrow> bytes" where
  "hashData sha256 data = Some (sha256 (elems data))"

datatype error =
    EOF
  | ErrFieldCount
  | ErrCsvParse
  | ErrBadPattern
  | OsError string
  | Errorf string
  | PanicIndexOutOfRange
  | PanicNilDereference

datatype ChangeType = Modified | Added | Deleted

record FileChange =
  FileName :: string
  ChangeType :: ChangeType
  OldHash :: bytes
  NewHash :: bytes

record 't ChangeReport =
  OldTimestamp :: 't
  NewTimestamp :: 't
  OldRootHash :: bytes
  NewRootHash :: bytes
  Changes :: "FileChange list"

text \<open>
  struct MerkleNode; the pointers \<open>Left\<close> and \<open>Right\<close> are \<open>None\<close> when nil. The
  field \<open>FileName\<close> of the node is \<open>NodeFileName\<close> here (\<open>FileName\<close> is the field of
  FileChange).
\<close>

datatype MerkleNode =
  MerkleNode (Hash: bytes) (Left: "MerkleNode option") (Right: "MerkleNode option")
    (IsLeaf: bool) (NodeFileName: string)

record MerkleTree =
  Root :: "MerkleNode option"

record 't TreeState =
  Timestamp :: 't
  RootHash :: bytes
  FileHashes :: "string \<rightharpoonup> bytes"

section \<open>Tree construction\<close>

text \<open>The body of the pairing loop of buildMerkleTree: the parent of two nodes.\<close>

definition parentNode :: "hasher \<Rightarrow> MerkleNode \<Rightarrow> MerkleNode \<Rightarrow> MerkleNode" where
  "parentNode sha256 left right =
     (let combinedHash = append_bytes (Hash left) (Hash right);
          parentHash = hashData sha256 combinedHash
      in MerkleNode parentHash (Some left) (Some right) False [])"

text \<open>
  The loop \<open>for i := 0; i < len(nodes); i += 2\<close> of buildMerkleTree, with the index
  and the slice \<open>nextLevel\<close> as arguments.
\<close>

function levelLoop :: "hasher \<Rightarrow> MerkleNode list \<Rightarrow> nat \<Rightarrow> MerkleNode list \<Rightarrow> MerkleNode list" where
  "levelLoop sha256 nodes i nextLevel =
     (if i < length nodes then
        (let left = nodes ! i;
             right = (if i + 1 < length nodes then nodes ! (i + 1) else nodes ! i)
         in levelLoop sha256 nodes (i + 2) (nextLevel @ [parentNode sha256 left right]))
      else nextLevel)"
  by pat_completeness auto
termination
  by (relation "measure (\<lambda>(sha256, nodes, i, nextLevel). length nodes - i)") auto

declare levelLoop.simps [simp del]

text \<open>The same loop by recursion on the list, two nodes at a time.\<close>

fun pairLevel :: "hasher \<Rightarrow> MerkleNode list \<Rightarrow> MerkleNode list" where
  "pairLevel sha256 [] = []"
| "pairLevel sha256 [left] = [parentNode sha256 left left]"
| "pairLevel sha256 (left # right # rest) = parentNode sha256 left right # pairLevel sha256 rest"

lemma levelLoop_pairLevel:
  "levelLoop sha256 nodes i nextLevel = nextLevel @ pairLevel sha256 (drop i nodes)"
proof (induction sha256 nodes i nextLevel rule: levelLoop.induct)
  case (1 sha256 nodes i nextLevel)
  show ?case
  proof (cases "i < length nodes")
    case False
    then show ?thesis by (simp add: levelLoop.simps [of sha256 nodes i])
  next
    case True
    note lt = this
    show ?thesis
    proof (cases "i + 1 < length nodes")
      case True
      then have d: "drop i nodes = nodes ! i # nodes ! (i + 1) # drop (i + 2) nodes"
        by (metis Cons_nth_drop_Suc Suc_eq_plus1 add_2_eq_Suc' lt)
      show ?thesis
        using 1 [OF lt refl refl] True lt
        by (simp add: levelLoop.simps [of sha256 nodes i] d Let_def)
    next
      case False
      with lt have d: "drop i nodes = [nodes ! i]" and e: "drop (i + 2) nodes = []"
        by (simp_all add: Cons_nth_drop_Suc [symmetric])
      show ?thesis
        using 1 [OF lt refl refl] False lt
        by (simp add: levelLoop.simps [of sha256 nodes i] d e Let_def)
    qed
  qed
qed

lemma length_pairLevel: "length (pairLevel sha256 nodes) = (length nodes + 1) div 2"
  by (induction sha256 nodes rule: pairLevel.induct) simp_all

lemma length_levelLoop0: "length (levelLoop sha256 nodes 0 []) = (length nodes + 1) div 2"
  by (simp add: levelLoop_pairLevel length_pairLevel)

lemma levelLoop_shorter:
  assumes "length nodes \<noteq> 0" and "length nodes \<noteq> 1"
  shows "length (levelLoop sha256 nodes 0 []) < length nodes"
proof -
  from assms have "2 \<le> length nodes" by arith
  then have "(length nodes + 1) div 2 < length nodes" by arith
  then show ?thesis by (simp only: length_levelLoop0)
qed

function buildMerkleTree :: "hasher \<Rightarrow> MerkleNode list \<Rightarrow> MerkleNode option" where
  "buildMerkleTree sha256 nodes =
     (if length nodes = 0 then None
      else if length nodes = 1 then Some (nodes ! 0)
      else buildMerkleTree sha256 (levelLoop sha256 nodes 0 []))"
  by pat_completeness auto
termination
  by (relation "measure (\<lambda>(sha256, nodes). length nodes)") (simp_all add: levelLoop_shorter)

declare buildMerkleTree.simps [simp del]

text \<open>
  The leaf node the callback of \<open>filepath.Walk\<close> makes of a regular file: its relative
  path and the digest \<open>hashFile\<close> returned (never the nil slice).
\<close>

definition leafNode :: "string \<times> byte list \<Rightarrow> MerkleNode" where
  "leafNode e = MerkleNode (Some (snd e)) None None True (fst e)"

text \<open>
  createMerkleTreeFromFolder. The file system is outside the model: \<open>walk\<close> is what
  \<open>filepath.Walk\<close> with \<open>hashFile\<close> produced, the first error or the (relPath,
  fileHash) pairs of the regular files in the order of enumeration. \<open>sort.Slice\<close> with
  \<open>leafNodes[i].FileName < leafNodes[j].FileName\<close> is sorting by the key FileName in the
  byte-wise order of strings; it is not stable, and the model keeps nodes with the same
  FileName in their order of enumeration.
\<close>

definition createMerkleTreeFromFolder ::
    "hasher \<Rightarrow> error + (string \<times> byte list) list \<Rightarrow> error + MerkleTree" where
  "createMerkleTreeFromFolder sha256 walk =
     (case walk of
        Inl err \<Rightarrow> Inl err
      | Inr files \<Rightarrow>
          (let leafNodes = map leafNode files in
           if length leafNodes = 0 then Inl (Errorf ''no files found in folder'')
           else
             (let leafNodes = sort_key NodeFileName leafNodes;
                  root = buildMerkleTree sha256 leafNodes
              in Inr \<lparr>Root = root\<rparr>)))"

definition GetTree :: "hasher \<Rightarrow> error + (string \<times> byte list) list \<Rightarrow> error + MerkleTree" where
  "GetTree sha256 walk = createMerkleTreeFromFolder sha256 walk"

fun collectFileHashes :: "MerkleNode option \<Rightarrow> (string \<rightharpoonup> bytes) \<Rightarrow> (string \<rightharpoonup> bytes)" where
  "collectFileHashes None fileHashes = fileHashes"
| "collectFileHashes (Some (MerkleNode h l r leaf fileName)) fileHashes =
     (if leaf then fileHashes(fileName \<mapsto> h)
      else collectFileHashes r (collectFileHashes l fileHashes))"

text \<open>
  CreateSnapshot; \<open>now\<close> is the value of \<open>time.Now()\<close>. Reading \<open>tree.Root.Hash\<close>
  through a nil root would panic.
\<close>

definition CreateSnapshot ::
    "hasher \<Rightarrow> 't \<Rightarrow> error + (string \<times> byte list) list \<Rightarrow> error + 't TreeState" where
  "CreateSnapshot sha256 now walk =
     (case GetTree sha256 walk of
        Inl err \<Rightarrow> Inl err
      | Inr tree \<Rightarrow>
          (case Root tree of
             None \<Rightarrow> Inl PanicNilDereference
           | Some root \<Rightarrow>
               Inr \<lparr>Timestamp = now, RootHash = Hash root,
                    FileHashes = collectFileHashes (Root tree) Map.empty\<rparr>))"

section \<open>Comparing snapshots\<close>

text \<open>The loop \<open>for i := range h1\<close> of equalHashes, with the index as argument.\<close>

function equalLoop :: "byte list \<Rightarrow> byte list \<Rightarrow> nat \<Rightarrow> bool" where
  "equalLoop h1 h2 i =
     (if i < length h1 then (if h1 ! i \<noteq> h2 ! i then False else equalLoop h1 h2 (i + 1))
      else True)"
  by pat_completeness auto
termination
  by (relation "measure (\<lambda>(h1, h2, i). length h1 - i)") auto

declare equalLoop.simps [simp del]

definition equalHashes :: "bytes \<Rightarrow> bytes \<Rightarrow> bool" where
  "equalHashes h1 h2 =
     (if length (elems h1) \<noteq> length (elems h2) then False
      else equalLoop (elems h1) (elems h2) 0)"

text \<open>
  \<open>for k, v := range m\<close> visits every entry of the map once, in an order Go leaves
  open: \<open>ranges m kvs\<close> says that \<open>kvs\<close> is such an order. The loops below take the
  order of their visit as an argument.
\<close>

definition ranges :: "(string \<rightharpoonup> bytes) \<Rightarrow> (string \<times> bytes) list \<Rightarrow> bool" where
  "ranges m kvs = (distinct (map fst kvs) \<and> map_of kvs = m)"

text \<open>The three loops of CompareSnapshots; \<open>changes\<close> is \<open>report.Changes\<close>.\<close>

fun modifiedLoop ::
    "(string \<rightharpoonup> bytes) \<Rightarrow> (string \<times> bytes) list \<Rightarrow> FileChange list \<Rightarrow> FileChange list" where
  "modifiedLoop oldHashes [] changes = changes"
| "modifiedLoop oldHashes ((fileName, newHash) # rest) changes =
     (case oldHashes fileName of
        Some oldHash \<Rightarrow>
          (if \<not> equalHashes oldHash newHash then
             modifiedLoop oldHashes rest
               (changes @ [\<lparr>FileName = fileName, ChangeType = Modified,
                             OldHash = oldHash, NewHash = newHash\<rparr>])
           else modifiedLoop oldHashes rest changes)
      | None \<Rightarrow> modifiedLoop oldHashes rest changes)"

fun addedLoop ::
    "(string \<rightharpoonup> bytes) \<Rightarrow> (string \<times> bytes) list \<Rightarrow> FileChange list \<Rightarrow> FileChange list" where
  "addedLoop oldHashes [] changes = changes"
| "addedLoop oldHashes ((fileName, hash) # rest) changes =
     (case oldHashes fileName of
        None \<Rightarrow>
          addedLoop oldHashes rest
            (changes @ [\<lparr>FileName = fileName, ChangeType = Added,
                          OldHash = None, NewHash = hash\<rparr>])
      | Some _ \<Rightarrow> addedLoop oldHashes rest changes)"

fun deletedLoop ::
    "(string \<rightharpoonup> bytes) \<Rightarrow> (string \<times> bytes) list \<Rightarrow> FileChange list \<Rightarrow> FileChange list" where
  "deletedLoop newHashes [] changes = changes"
| "deletedLoop newHashes ((fileName, hash) # rest) changes =
     (case newHashes fileName of
        None \<Rightarrow>
          deletedLoop newHashes rest
            (changes @ [\<lparr>FileName = fileName, ChangeType = Deleted,
                          OldHash = hash, NewHash = None\<rparr>])
      | Some _ \<Rightarrow> deletedLoop newHashes rest changes)"

text \<open>
  CompareSnapshots. \<open>visitNew1\<close> and \<open>visitNew2\<close> are the orders in which the first and
  the second loop visit \<open>newState.FileHashes\<close>, \<open>visitOld\<close> the order in which the
  third visits \<open>oldState.FileHashes\<close>.
\<close>

definition CompareSnapshots ::
    "(string \<times> bytes) list \<Rightarrow> (string \<times> bytes) list \<Rightarrow> (string \<times> bytes) list \<Rightarrow>
     't TreeState \<Rightarrow> 't TreeState \<Rightarrow> 't ChangeReport" where
  "CompareSnapshots visitNew1 visitNew2 visitOld oldState newState =
     (let changes = [];
          changes = modifiedLoop (FileHashes oldState) visitNew1 changes;
          changes = addedLoop (FileHashes oldState) visitNew2 changes;
          changes = deletedLoop (FileHashes newState) visitOld changes
      in \<lparr>OldTimestamp = Timestamp oldState, NewTimestamp = Timestamp newState,
          OldRootHash = RootHash oldState, NewRootHash = RootHash newState,
          Changes = changes\<rparr>)"

section \<open>Storing and loading snapshots\<close>

text \<open>
  \<open>encoding/hex\<close>, as the standard library defines it: EncodeToString writes two
  lower-case digits per byte; DecodeString returns the bytes decoded before the first
  invalid digit or the odd end, with the error.
\<close>

datatype hexError = InvalidByteError char | ErrLength



definition fromHexChar :: "char \<Rightarrow> byte option" where
  "fromHexChar c =
     (let n = (of_char c :: nat) in
      if 48 \<le> n \<and> n \<le> 57 then Some (of_nat (n - 48))
      else if 97 \<le> n \<and> n \<le> 102 then Some (of_nat (n - 97 + 10))
      else if 65 \<le> n \<and> n \<le> 70 then Some (of_nat (n - 65 + 10))
      else None)"

fun decodeLoop :: "string \<Rightarrow> byte list \<Rightarrow> byte list \<times> hexError option" where
  "decodeLoop [] dst = (dst, None)"
| "decodeLoop [p] dst =
     (case fromHexChar p of
        None \<Rightarrow> (dst, Some (InvalidByteError p))
      | Some _ \<Rightarrow> (dst, Some ErrLength))"
| "decodeLoop (p # q # src) dst =
     (case fromHexChar p of
        None \<Rightarrow> (dst, Some (InvalidByteError p))
      | Some a \<Rightarrow>
          (case fromHexChar q of
             None \<Rightarrow> (dst, Some (InvalidByteError q))
           | Some b \<Rightarrow> decodeLoop src (dst @ [push_bit 4 a OR b])))"

definition DecodeString :: "string \<Rightarrow> byte list \<times> hexError option" where
  "DecodeString s = decodeLoop s []"

text \<open>
  Package \<open>time\<close> is not part of the repository: the type of times is a type variable
  and the operations on times are the fields of a record. \<open>ParseRFC3339\<close> is
  \<open>time.Parse(time.RFC3339, _)\<close>, \<open>None\<close> when it returns an error (its time value is
  then \<open>Time{}\<close>); \<open>FormatRFC3339\<close> is \<open>Format(time.RFC3339)\<close>. The snapshot code
  does not call \<open>TruncateSecond\<close>, which is \<open>Truncate(time.Second)\<close>: it names the time
  that the RFC 3339 text of a time, written to the second, stands for.
\<close>

record 't timeOps =
  zeroTime :: 't
  IsZero :: "'t \<Rightarrow> bool"
  FormatRFC3339 :: "'t \<Rightarrow> string"
  ParseRFC3339 :: "string \<Rightarrow> 't option"
  TruncateSecond :: "'t \<Rightarrow> 't"

text \<open>
  A stored CSV file is modelled by its lines as \<open>encoding/csv\<close> reads them: a record
  with its fields, or a line the reader rejects. A reader with FieldsPerRecord = 0 takes
  the number of fields of the first record and returns ErrFieldCount for a later record
  with another number.
\<close>

datatype csvLine = Record "string list" | Malformed

definition expectedHeader :: "string list" where
  "expectedHeader = [''timestamp'', ''root_hash'', ''file_path'', ''file_hash'']"







text \<open>The header check of LoadSnapshot: \<open>header[i]\<close> panics beyond the header's end.\<close>

fun validateHeader :: "string list \<Rightarrow> nat \<Rightarrow> string list \<Rightarrow> error option" where
  "validateHeader header i [] = None"
| "validateHeader header i (h # hs) =
     (if length header \<le> i then Some PanicIndexOutOfRange
      else if header ! i \<noteq> h then Some (Errorf ''invalid CSV header'')
      else validateHeader header (i + 1) hs)"

text \<open>
  The loop over the data rows of LoadSnapshot; \<open>n\<close> is the number of fields of the
  header. The errors of \<open>time.Parse\<close> and \<open>hex.DecodeString\<close> are assigned to \<open>_\<close>.
\<close>

fun readRows :: "'t timeOps \<Rightarrow> nat \<Rightarrow> csvLine list \<Rightarrow> 't TreeState \<Rightarrow> error + 't TreeState" where
  "readRows T n [] state = Inr state"
| "readRows T n (Malformed # rest) state = Inl ErrCsvParse"
| "readRows T n (Record row # rest) state =
     (if length row \<noteq> n then Inl ErrFieldCount
      else if length row < 4 then Inl PanicIndexOutOfRange
      else
        (let state =
               (if IsZero T (Timestamp state) then
                  state\<lparr>Timestamp :=
                    (case ParseRFC3339 T (row ! 0) of Some t \<Rightarrow> t | None \<Rightarrow> zeroTime T)\<rparr>
                else state);
             state =
               (if RootHash state = None then
                  state\<lparr>RootHash := Some (fst (DecodeString (row ! 1)))\<rparr>
                else state);
             fileHash = Some (fst (DecodeString (row ! 3)))
         in readRows T n rest (state\<lparr>FileHashes := (FileHashes state)(row ! 2 \<mapsto> fileHash)\<rparr>)))"

text \<open>LoadSnapshot; \<open>file\<close> is the error of \<open>os.Open\<close> or the lines of the file.\<close>

definition LoadSnapshot :: "'t timeOps \<Rightarrow> error + csvLine list \<Rightarrow> error + 't TreeState" where
  "LoadSnapshot T file =
     (case file of
        Inl err \<Rightarrow> Inl err
      | Inr [] \<Rightarrow> Inl EOF
      | Inr (Malformed # rest) \<Rightarrow> Inl ErrCsvParse
      | Inr (Record header # rest) \<Rightarrow>
          (case validateHeader header 0 expectedHeader of
             Some err \<Rightarrow> Inl err
           | None \<Rightarrow>
               readRows T (length header) rest
                 \<lparr>Timestamp = zeroTime T, RootHash = None, FileHashes = Map.empty\<rparr>))"

text \<open>
  FindLatestSnapshot; \<open>glob\<close> is what \<open>filepath.Glob\<close> returned for the pattern
  \<open>state_<folderName>_*.csv\<close> in the storage directory.
\<close>

definition FindLatestSnapshot :: "string \<Rightarrow> error + string list \<Rightarrow> error + string" where
  "FindLatestSnapshot folderName glob =
     (case glob of
        Inl err \<Rightarrow> Inl err
      | Inr files \<Rightarrow>
          if length files = 0 then
            Inl (Errorf (''no previous state found for folder: '' @ folderName))
          else (let files = sort files in Inr (files ! (length files - 1))))"

text \<open>
  A small digest function, used where the model is evaluated on concrete inputs.
\<close>

definition sumHash :: hasher where
  "sumHash data = [sum_list data]"

text \<open>
  A small implementation of the time operations, used where the model is evaluated on
  concrete inputs: a time is a pair of seconds and nanoseconds, and its text is as many
  letters s as it has seconds.
\<close>

definition unaryClock :: "(nat \<times> nat) timeOps" where
  "unaryClock =
     \<lparr>zeroTime = (0, 0), IsZero = (\<lambda>t. t = (0, 0)),
      FormatRFC3339 = (\<lambda>t. replicate (fst t) CHR ''s''),
      ParseRFC3339 =
        (\<lambda>s. if list_all (\<lambda>c. c = CHR ''s'') s then Some (length s, 0) else None),
      TruncateSecond = (\<lambda>t. (fst t, 0))\<rparr>"


section \<open>Notions used to state and prove the properties\<close>

text \<open>
  \<open>fullNode\<close>: every node of the tree that is not a leaf has two children and the
  digest of their digests, left then right.
\<close>

fun fullNode :: "hasher \<Rightarrow> MerkleNode \<Rightarrow> bool" where
  "fullNode sha256 (MerkleNode h l r leaf fileName) =
     (if leaf then True
      else (case l of
              None \<Rightarrow> False
            | Some a \<Rightarrow>
                (case r of
                   None \<Rightarrow> False
                 | Some b \<Rightarrow>
                     h = Some (sha256 (elems (Hash a) @ elems (Hash b)))
                     \<and> fullNode sha256 a \<and> fullNode sha256 b)))"

text \<open>
  The (FileName, Hash) pairs that collectFileHashes stores for a tree, in the order in
  which it stores them, and the pairs stored for the nodes of a level.
\<close>

fun leafList :: "MerkleNode option \<Rightarrow> (string \<times> bytes) list" where
  "leafList None = []"
| "leafList (Some (MerkleNode h l r leaf fileName)) =
     (if leaf then [(fileName, h)] else leafList l @ leafList r)"

fun store :: "string \<times> bytes \<Rightarrow> (string \<rightharpoonup> bytes) \<Rightarrow> (string \<rightharpoonup> bytes)" where
  "store (k, v) m = m(k \<mapsto> v)"

definition leafSet :: "MerkleNode list \<Rightarrow> (string \<times> bytes) set" where
  "leafSet nodes = (\<Union>n \<in> set nodes. set (leafList (Some n)))"

text \<open>The records that one visit of each loop of CompareSnapshots appends.\<close>

definition modifiedRecs :: "(string \<rightharpoonup> bytes) \<Rightarrow> string \<times> bytes \<Rightarrow> FileChange list" where
  "modifiedRecs oldHashes kv =
     (case oldHashes (fst kv) of
        Some oldHash \<Rightarrow>
          if elems oldHash \<noteq> elems (snd kv)
          then [\<lparr>FileName = fst kv, ChangeType = Modified, OldHash = oldHash, NewHash = snd kv\<rparr>]
          else []
      | None \<Rightarrow> [])"

definition addedRecs :: "(string \<rightharpoonup> bytes) \<Rightarrow> string \<times> bytes \<Rightarrow> FileChange list" where
  "addedRecs oldHashes kv =
     (case oldHashes (fst kv) of
        None \<Rightarrow> [\<lparr>FileName = fst kv, ChangeType = Added, OldHash = None, NewHash = snd kv\<rparr>]
      | Some _ \<Rightarrow> [])"

definition deletedRecs :: "(string \<rightharpoonup> bytes) \<Rightarrow> string \<times> bytes \<Rightarrow> FileChange list" where
  "deletedRecs newHashes kv =
     (case newHashes (fst kv) of
        None \<Rightarrow> [\<lparr>FileName = fst kv, ChangeType = Deleted, OldHash = snd kv, NewHash = None\<rparr>]
      | Some _ \<Rightarrow> [])"


definition parsedTime :: "'t timeOps \<Rightarrow> string \<Rightarrow> 't" where
  "parsedTime T s = (case ParseRFC3339 T s of Some t \<Rightarrow> t | None \<Rightarrow> zeroTime T)"

text \<open>The timestamp of the state after LoadSnapshot has read one more row.\<close>

definition scanTime :: "'t timeOps \<Rightarrow> 't \<Rightarrow> string list \<Rightarrow> 't" where
  "scanTime T t row = (if IsZero T t then parsedTime T (row ! 0) else t)"

section \<open>Properties of the tree builder\<close>

lemma buildMerkleTree_Nil: "buildMerkleTree sha256 [] = None"
  by (simp add: buildMerkleTree.simps)

lemma buildMerkleTree_single: "buildMerkleTree sha256 [n] = Some n"
  by (simp add: buildMerkleTree.simps)

lemma buildMerkleTree_more:
  "buildMerkleTree sha256 (a # b # rest) = buildMerkleTree sha256 (pairLevel sha256 (a # b # rest))"
  by (subst buildMerkleTree.simps) (simp add: levelLoop_pairLevel)

lemma elems_append_bytes: "elems (append_bytes a b) = elems a @ elems b"
  by (auto simp: append_bytes_def elems_def split: option.splits)

lemma fullNode_parentNode:
  "fullNode sha256 (parentNode sha256 a b) = (fullNode sha256 a \<and> fullNode sha256 b)"
  by (simp add: parentNode_def hashData_def elems_append_bytes)

lemma fullNode_pairLevel:
  "list_all (fullNode sha256) nodes \<Longrightarrow> list_all (fullNode sha256) (pairLevel sha256 nodes)"
  by (induction sha256 nodes rule: pairLevel.induct) (simp_all add: fullNode_parentNode)

lemma pairLevel_Nil_iff: "pairLevel sha256 nodes = [] \<longleftrightarrow> nodes = []"
  by (induction sha256 nodes rule: pairLevel.induct) simp_all

lemma buildMerkleTree_fullNode:
  "nodes \<noteq> [] \<Longrightarrow> list_all (fullNode sha256) nodes \<Longrightarrow>
   \<exists>root. buildMerkleTree sha256 nodes = Some root \<and> fullNode sha256 root"
proof (induction "length nodes" arbitrary: nodes rule: less_induct)
  case less
  show ?case
  proof (cases nodes)
    case Nil
    with less.prems show ?thesis by simp
  next
    case (Cons a rest)
    note c = this
    show ?thesis
    proof (cases rest)
      case Nil
      with c less.prems show ?thesis by (simp add: buildMerkleTree_single)
    next
      case (Cons b rest')
      let ?next = "pairLevel sha256 nodes"
      have "length ?next < length nodes"
        using c Cons by (simp add: length_pairLevel)
      moreover have "?next \<noteq> []" using c by (simp add: pairLevel_Nil_iff)
      moreover have "list_all (fullNode sha256) ?next"
        using less.prems(2) by (rule fullNode_pairLevel)
      ultimately have "\<exists>root. buildMerkleTree sha256 ?next = Some root \<and> fullNode sha256 root"
        by (rule less.hyps)
      then show ?thesis using c Cons by (simp add: buildMerkleTree_more)
    qed
  qed
qed

lemma insort_key_leafNode:
  "insort_key NodeFileName (leafNode e) (map leafNode es) = map leafNode (insort_key fst e es)"
  by (induction es) (simp_all add: leafNode_def)

lemma sort_key_leafNode:
  "sort_key NodeFileName (map leafNode es) = map leafNode (sort_key fst es)"
  by (induction es) (simp_all add: insort_key_leafNode)

lemma filter_eq_replicate_count: "filter (\<lambda>x. k = x) zs = replicate (count (mset zs) k) k"
  by (induction zs) auto

lemma sort_perm_functional:
  fixes xs ys :: "(string \<times> 'a) list"
  assumes func: "\<And>e e'. e \<in> set xs \<Longrightarrow> e' \<in> set xs \<Longrightarrow> fst e = fst e' \<Longrightarrow> e = e'"
    and perm: "mset ys = mset xs"
  shows "sort_key fst ys = sort_key fst xs"
proof -
  have same_set: "set ys = set xs" using perm by (rule mset_eq_setD)
  have by_key: "filter (\<lambda>x. fst k = fst x) zs = replicate (count (mset zs) k) k"
    if "k \<in> set xs" and "set zs \<subseteq> set xs" for k zs
  proof -
    have "(fst k = fst x) = (k = x)" if "x \<in> set zs" for x
      using func [of k x] \<open>k \<in> set xs\<close> \<open>set zs \<subseteq> set xs\<close> that by auto
    then have "filter (\<lambda>x. fst k = fst x) zs = filter (\<lambda>x. k = x) zs"
      by (intro filter_cong) auto
    then show ?thesis by (simp only: filter_eq_replicate_count)
  qed
  have "sort_key fst xs = sort_key fst ys"
  proof (rule properties_for_sort_key)
    show "mset (sort_key fst ys) = mset xs" using perm by simp
    show "sorted (map fst (sort_key fst ys))" by simp
    fix k assume "k \<in> set (sort_key fst ys)"
    then have k: "k \<in> set xs" using same_set by simp
    have "filter (\<lambda>x. fst k = fst x) (sort_key fst ys)
            = replicate (count (mset (sort_key fst ys)) k) k"
      using k same_set by (intro by_key) simp_all
    also have "\<dots> = replicate (count (mset xs) k) k" using perm by simp
    also have "\<dots> = filter (\<lambda>x. fst k = fst x) xs"
      using k by (intro by_key [symmetric]) simp_all
    finally show "filter (\<lambda>x. fst k = fst x) (sort_key fst ys) = filter (\<lambda>x. fst k = fst x) xs" .
  qed
  then show ?thesis by simp
qed

lemma collectFileHashes_leafList:
  "collectFileHashes t m = fold store (leafList t) m"
proof (induction t m rule: collectFileHashes.induct)
  case (1 fileHashes)
  show ?case by simp
next
  case (2 h l r leaf fileName fileHashes)
  show ?case
  proof (cases leaf)
    case True
    then show ?thesis by (simp add: fun_upd_def)
  next
    case False
    with 2 show ?thesis by simp
  qed
qed

lemma fold_upd_map_add:
  "fold store ws m = m ++ map_of (rev ws)"
proof (induction ws arbitrary: m)
  case Nil
  show ?case by simp
next
  case (Cons kv ws)
  have "store kv m ++ map_of (rev ws) = m ++ (map_of (rev ws @ [kv]))"
    by (cases kv) (simp add: fun_eq_iff map_add_def split: option.splits)
  with Cons show ?case by simp
qed

lemma leafList_parentNode:
  "leafList (Some (parentNode sha256 a b)) = leafList (Some a) @ leafList (Some b)"
  by (simp add: parentNode_def)

lemma leafSet_pairLevel: "leafSet (pairLevel sha256 nodes) = leafSet nodes"
  by (induction sha256 nodes rule: pairLevel.induct)
     (auto simp: leafSet_def leafList_parentNode)

lemma buildMerkleTree_leafSet:
  "nodes \<noteq> [] \<Longrightarrow> set (leafList (buildMerkleTree sha256 nodes)) = leafSet nodes"
proof (induction "length nodes" arbitrary: nodes rule: less_induct)
  case less
  show ?case
  proof (cases nodes)
    case Nil
    with less.prems show ?thesis by simp
  next
    case (Cons a rest)
    note c = this
    show ?thesis
    proof (cases rest)
      case Nil
      with c show ?thesis by (simp add: buildMerkleTree_single leafSet_def)
    next
      case (Cons b rest')
      let ?next = "pairLevel sha256 nodes"
      have "length ?next < length nodes"
        using c Cons by (simp add: length_pairLevel)
      moreover have "?next \<noteq> []" using c by (simp add: pairLevel_Nil_iff)
      ultimately have "set (leafList (buildMerkleTree sha256 ?next)) = leafSet ?next"
        by (rule less.hyps)
      then have "set (leafList (buildMerkleTree sha256 ?next)) = leafSet nodes"
        by (simp only: leafSet_pairLevel)
      moreover have "buildMerkleTree sha256 nodes = buildMerkleTree sha256 ?next"
        by (simp only: c Cons buildMerkleTree_more)
      ultimately show ?thesis by simp
    qed
  qed
qed

lemma leafSet_leafNodes: "leafSet (map leafNode es) = (\<lambda>e. (fst e, Some (snd e))) ` set es"
  by (auto simp: leafSet_def leafNode_def)

lemma map_of_functional:
  assumes "\<And>k v v'. (k, v) \<in> set ws \<Longrightarrow> (k, v') \<in> set ws \<Longrightarrow> v = v'"
  shows "map_of ws k = Some v \<longleftrightarrow> (k, v) \<in> set ws"
  by (metis assms map_of_SomeD weak_map_of_SomeI)

lemma collect_leaves:
  assumes ne: "files \<noteq> []" and dist: "distinct (map fst files)"
  shows "collectFileHashes (buildMerkleTree sha256 (map leafNode (sort_key fst files))) Map.empty
           = (\<lambda>p. map_option Some (map_of files p))"
proof -
  let ?t = "buildMerkleTree sha256 (map leafNode (sort_key fst files))"
  let ?ws = "leafList ?t"
  have set_ws: "set ?ws = (\<lambda>e. (fst e, Some (snd e))) ` set files"
  proof -
    have "length (map leafNode (sort_key fst files)) \<noteq> 0" using ne by simp
    then have "map leafNode (sort_key fst files) \<noteq> []" by (simp only: length_0_conv not_False_eq_True)
    then have "set ?ws = leafSet (map leafNode (sort_key fst files))"
      by (rule buildMerkleTree_leafSet)
    then show ?thesis by (simp add: leafSet_leafNodes)
  qed
  have fn: "v = v'" if "(k, v) \<in> set files" "(k, v') \<in> set files" for k v v'
    using that dist by (meson eq_key_imp_eq_value)
  have "collectFileHashes ?t Map.empty p = map_option Some (map_of files p)" for p
  proof (cases "map_of (rev ?ws) p")
    case None
    then have "p \<notin> fst ` set ?ws" by (simp add: map_of_eq_None_iff)
    then have "p \<notin> fst ` set files" unfolding set_ws by force
    then have "map_of files p = None" by (simp add: map_of_eq_None_iff)
    with None show ?thesis by (simp add: collectFileHashes_leafList fold_upd_map_add)
  next
    case (Some v)
    then have "(p, v) \<in> set ?ws" by (metis map_of_SomeD set_rev)
    then obtain d where d: "(p, d) \<in> set files" and v: "v = Some d"
      unfolding set_ws by auto
    from d dist have "map_of files p = Some d" by simp
    with Some v show ?thesis by (simp add: collectFileHashes_leafList fold_upd_map_add)
  qed
  then show ?thesis by (simp add: fun_eq_iff)
qed

lemma buildMerkleTree_Some:
  "nodes \<noteq> [] \<Longrightarrow> \<exists>root. buildMerkleTree sha256 nodes = Some root"
proof (induction "length nodes" arbitrary: nodes rule: less_induct)
  case less
  show ?case
  proof (cases nodes)
    case Nil
    with less.prems show ?thesis by simp
  next
    case (Cons a rest)
    note c = this
    show ?thesis
    proof (cases rest)
      case Nil
      with c show ?thesis by (simp add: buildMerkleTree_single)
    next
      case (Cons b rest')
      let ?next = "pairLevel sha256 nodes"
      have "length ?next < length nodes"
        using c Cons by (simp add: length_pairLevel)
      moreover have "?next \<noteq> []" using c by (simp add: pairLevel_Nil_iff)
      ultimately have "\<exists>root. buildMerkleTree sha256 ?next = Some root"
        by (rule less.hyps)
      moreover have "buildMerkleTree sha256 nodes = buildMerkleTree sha256 ?next"
        by (simp only: c Cons buildMerkleTree_more)
      ultimately show ?thesis by simp
    qed
  qed
qed

lemma createMerkleTreeFromFolder_sorted:
  "files \<noteq> [] \<Longrightarrow>
   createMerkleTreeFromFolder sha256 (Inr files)
     = Inr \<lparr>Root = buildMerkleTree sha256 (map leafNode (sort_key fst files))\<rparr>"
  by (simp add: createMerkleTreeFromFolder_def sort_key_leafNode)

lemma sorted_leaves_nonempty: "files \<noteq> [] \<Longrightarrow> map leafNode (sort_key fst files) \<noteq> []"
proof -
  assume "files \<noteq> []"
  then have "length (map leafNode (sort_key fst files)) \<noteq> 0" by simp
  then show ?thesis by (simp only: length_0_conv not_False_eq_True)
qed

lemma tree_of_permutation:
  fixes fs fs' :: "(string \<times> byte list) list"
  assumes ne: "fs \<noteq> []"
    and func: "\<forall>e \<in> set fs. \<forall>e' \<in> set fs. fst e = fst e' \<longrightarrow> snd e = snd e'"
    and m: "mset fs' = mset fs"
  shows "\<exists>root. createMerkleTreeFromFolder sha256 (Inr fs) = Inr \<lparr>Root = Some root\<rparr>
              \<and> createMerkleTreeFromFolder sha256 (Inr fs') = Inr \<lparr>Root = Some root\<rparr>"
proof -
  have ne': "fs' \<noteq> []"
  proof
    assume "fs' = []"
    with m have "mset fs = {#}" by simp
    with ne show False by simp
  qed
  have "e = e'" if a: "e \<in> set fs" and b: "e' \<in> set fs" and c: "fst e = fst e'" for e e'
  proof -
    from func a b c have "snd e = snd e'" by blast
    with c show ?thesis by (rule prod_eqI)
  qed
  then have s: "sort_key fst fs' = sort_key fst fs"
    using m by (rule sort_perm_functional)
  obtain root where r: "buildMerkleTree sha256 (map leafNode (sort_key fst fs)) = Some root"
    using buildMerkleTree_Some [OF sorted_leaves_nonempty [OF ne]] by blast
  have "createMerkleTreeFromFolder sha256 (Inr fs) = Inr \<lparr>Root = Some root\<rparr>"
    by (simp only: createMerkleTreeFromFolder_sorted [OF ne] r)
  moreover have "createMerkleTreeFromFolder sha256 (Inr fs') = Inr \<lparr>Root = Some root\<rparr>"
    by (simp only: createMerkleTreeFromFolder_sorted [OF ne'] s r)
  ultimately show ?thesis by blast
qed

text \<open>
  C1. The tree built from a non-empty list of (path, digest) entries and the tree built
  from any permutation of it are the same tree, so their root digests are byte-wise
  identical, when a path determines its digest (a directory holds one file under a
  path; on entries with the same path and different digests the order in which the
  unstable \<open>sort.Slice\<close> leaves them is not fixed by the path). For lists with pairwise
  different paths the tree therefore depends only on the set of entries.
\<close>

theorem C1_root_independent_of_order:
  "(files \<noteq> [] \<and> (\<forall>e \<in> set files. \<forall>e' \<in> set files. fst e = fst e' \<longrightarrow> snd e = snd e')
      \<and> mset files' = mset files
    \<longrightarrow> (\<exists>root. createMerkleTreeFromFolder sha256 (Inr files) = Inr \<lparr>Root = Some root\<rparr>
              \<and> createMerkleTreeFromFolder sha256 (Inr files') = Inr \<lparr>Root = Some root\<rparr>))
   \<and> (files \<noteq> [] \<and> distinct (map fst files) \<and> distinct (map fst files')
      \<and> set files' = set files
    \<longrightarrow> (\<exists>root. createMerkleTreeFromFolder sha256 (Inr files) = Inr \<lparr>Root = Some root\<rparr>
              \<and> createMerkleTreeFromFolder sha256 (Inr files') = Inr \<lparr>Root = Some root\<rparr>))"
proof (intro conjI impI)
  assume "files \<noteq> [] \<and> (\<forall>e \<in> set files. \<forall>e' \<in> set files. fst e = fst e' \<longrightarrow> snd e = snd e')
      \<and> mset files' = mset files"
  then show "\<exists>root. createMerkleTreeFromFolder sha256 (Inr files) = Inr \<lparr>Root = Some root\<rparr>
              \<and> createMerkleTreeFromFolder sha256 (Inr files') = Inr \<lparr>Root = Some root\<rparr>"
    by (intro tree_of_permutation) blast+
next
  assume a: "files \<noteq> [] \<and> distinct (map fst files) \<and> distinct (map fst files')
      \<and> set files' = set files"
  then have d: "distinct files" and d': "distinct files'"
    by (simp_all add: distinct_map)
  from a have "set files' = set files" by blast
  with d d' have m: "mset files' = mset files"
    by (simp only: set_eq_iff_mset_eq_distinct)
  have func: "\<forall>e \<in> set files. \<forall>e' \<in> set files. fst e = fst e' \<longrightarrow> snd e = snd e'"
  proof (intro ballI impI)
    fix e e' assume "e \<in> set files" "e' \<in> set files" "fst e = fst e'"
    moreover from a have "inj_on fst (set files)" by (simp add: distinct_map)
    ultimately have "e = e'" by (meson inj_onD)
    then show "snd e = snd e'" by simp
  qed
  from a have "files \<noteq> []" by blast
  then show "\<exists>root. createMerkleTreeFromFolder sha256 (Inr files) = Inr \<lparr>Root = Some root\<rparr>
              \<and> createMerkleTreeFromFolder sha256 (Inr files') = Inr \<lparr>Root = Some root\<rparr>"
    using func m by (rule tree_of_permutation)
qed

theorem C1_witness:
  "\<exists>root. createMerkleTreeFromFolder sumHash
              (Inr [(''c.txt'', [3]), (''a.txt'', [1]), (''b/x'', [2])]) = Inr \<lparr>Root = Some root\<rparr>
        \<and> createMerkleTreeFromFolder sumHash
              (Inr [(''b/x'', [2]), (''c.txt'', [3]), (''a.txt'', [1])]) = Inr \<lparr>Root = Some root\<rparr>"
proof -
  have "mset [(''b/x'', [2::byte]), (''c.txt'', [3]), (''a.txt'', [1])]
          = mset [(''c.txt'', [3]), (''a.txt'', [1]), (''b/x'', [2])]"
    by (simp add: add_mset_commute)
  then show ?thesis
    using C1_root_independent_of_order
      [of "[(''c.txt'', [3]), (''a.txt'', [1]), (''b/x'', [2])]"
          "[(''b/x'', [2]), (''c.txt'', [3]), (''a.txt'', [1])]" sumHash]
    by simp
qed

lemma last_pairLevel_odd:
  "odd (length nodes) \<Longrightarrow>
   last (pairLevel sha256 nodes) = parentNode sha256 (last nodes) (last nodes)"
proof (induction sha256 nodes rule: pairLevel.induct)
  case (1 sha256)
  then show ?case by simp
next
  case (2 sha256 left)
  show ?case by simp
next
  case (3 sha256 left right rest)
  from "3.prems" have o: "odd (length rest)" by simp
  then have "rest \<noteq> []" by auto
  then have "pairLevel sha256 rest \<noteq> []" by (simp add: pairLevel_Nil_iff)
  with "3.IH" [OF o] \<open>rest \<noteq> []\<close> show ?case by simp
qed

lemma parentNode_eq:
  "parentNode sha256 a b
     = MerkleNode (Some (sha256 (elems (Hash a) @ elems (Hash b)))) (Some a) (Some b) False []"
  by (simp add: parentNode_def hashData_def elems_append_bytes)

lemma fullNode_leaves: "list_all (fullNode sha256) (map leafNode es)"
  by (induction es) (simp_all add: leafNode_def)

text \<open>
  C3. In the tree built from a non-empty list of files every node that is not a leaf has
  two children that are not nil, and its digest is the hash of the left child's digest
  followed by the right child's (\<open>fullNode\<close>). The pairing loop pairs the last node of
  a level of odd length with itself. For three files the right child of the root is the
  parent of the third leaf (in path order) on both sides, with digest
  \<open>sha256 (d3 @ d3)\<close>.
\<close>

theorem C3_internal_nodes:
  "(files \<noteq> [] \<longrightarrow>
      (\<exists>root. createMerkleTreeFromFolder sha256 (Inr files) = Inr \<lparr>Root = Some root\<rparr>
             \<and> fullNode sha256 root))
   \<and> (odd (length nodes) \<longrightarrow>
        last (levelLoop sha256 nodes 0 [])
          = MerkleNode (Some (sha256 (elems (Hash (last nodes)) @ elems (Hash (last nodes)))))
              (Some (last nodes)) (Some (last nodes)) False [])
   \<and> (sort_key fst files = [e1, e2, e3] \<longrightarrow>
        (\<exists>root l p. createMerkleTreeFromFolder sha256 (Inr files) = Inr \<lparr>Root = Some root\<rparr>
             \<and> Left root = Some l \<and> Right root = Some p
             \<and> Left p = Some (leafNode e3) \<and> Right p = Some (leafNode e3)
             \<and> Hash p = Some (sha256 (snd e3 @ snd e3))))"
proof (intro conjI impI)
  assume ne: "files \<noteq> []"
  have "\<exists>root. buildMerkleTree sha256 (map leafNode (sort_key fst files)) = Some root
           \<and> fullNode sha256 root"
    using sorted_leaves_nonempty [OF ne] fullNode_leaves by (rule buildMerkleTree_fullNode)
  then show "\<exists>root. createMerkleTreeFromFolder sha256 (Inr files) = Inr \<lparr>Root = Some root\<rparr>
             \<and> fullNode sha256 root"
    by (simp add: createMerkleTreeFromFolder_sorted [OF ne])
next
  assume "odd (length nodes)"
  then show "last (levelLoop sha256 nodes 0 [])
          = MerkleNode (Some (sha256 (elems (Hash (last nodes)) @ elems (Hash (last nodes)))))
              (Some (last nodes)) (Some (last nodes)) False []"
    by (simp add: levelLoop_pairLevel last_pairLevel_odd parentNode_eq)
next
  assume s: "sort_key fst files = [e1, e2, e3]"
  then have ne: "files \<noteq> []" by auto
  let ?p = "parentNode sha256 (leafNode e3) (leafNode e3)"
  let ?l = "parentNode sha256 (leafNode e1) (leafNode e2)"
  have "buildMerkleTree sha256 (map leafNode [e1, e2, e3]) = Some (parentNode sha256 ?l ?p)"
    by (simp add: buildMerkleTree_more buildMerkleTree_single)
  then have "createMerkleTreeFromFolder sha256 (Inr files)
               = Inr \<lparr>Root = Some (parentNode sha256 ?l ?p)\<rparr>"
    by (simp add: createMerkleTreeFromFolder_sorted [OF ne] s)
  moreover have "Left (parentNode sha256 ?l ?p) = Some ?l"
    and "Right (parentNode sha256 ?l ?p) = Some ?p"
    and "Left ?p = Some (leafNode e3)" and "Right ?p = Some (leafNode e3)"
    and "Hash ?p = Some (sha256 (snd e3 @ snd e3))"
    by (simp_all add: parentNode_eq leafNode_def elems_def)
  ultimately show "\<exists>root l p. createMerkleTreeFromFolder sha256 (Inr files) = Inr \<lparr>Root = Some root\<rparr>
             \<and> Left root = Some l \<and> Right root = Some p
             \<and> Left p = Some (leafNode e3) \<and> Right p = Some (leafNode e3)
             \<and> Hash p = Some (sha256 (snd e3 @ snd e3))"
    by blast
qed

theorem C3_witness:
  "(\<exists>root. createMerkleTreeFromFolder sumHash
              (Inr [(''c.txt'', [3]), (''a.txt'', [1]), (''b/x'', [2])]) = Inr \<lparr>Root = Some root\<rparr>
           \<and> fullNode sumHash root)
   \<and> last (levelLoop sumHash
              [leafNode (''a.txt'', [1]), leafNode (''b/x'', [2]), leafNode (''c.txt'', [3])] 0 [])
        = MerkleNode (Some (sumHash ([3] @ [3])))
            (Some (leafNode (''c.txt'', [3]))) (Some (leafNode (''c.txt'', [3]))) False []
   \<and> (\<exists>root l p. createMerkleTreeFromFolder sumHash
              (Inr [(''c.txt'', [3]), (''a.txt'', [1]), (''b/x'', [2])]) = Inr \<lparr>Root = Some root\<rparr>
           \<and> Left root = Some l \<and> Right root = Some p
           \<and> Left p = Some (leafNode (''c.txt'', [3])) \<and> Right p = Some (leafNode (''c.txt'', [3]))
           \<and> Hash p = Some (sumHash ([3] @ [3])))"
  using C3_internal_nodes
    [of "[(''c.txt'', [3]), (''a.txt'', [1]), (''b/x'', [2])]" sumHash
        "[leafNode (''a.txt'', [1]), leafNode (''b/x'', [2]), leafNode (''c.txt'', [3])]"
        "(''a.txt'', [1])" "(''b/x'', [2])" "(''c.txt'', [3])"]
  by (simp add: leafNode_def elems_def)

text \<open>
  C4. For a non-empty list of files with pairwise different paths, CreateSnapshot returns
  a snapshot whose FileHashes map has exactly the paths of the files as keys and maps
  each path to the content digest of its file.
\<close>

theorem C4_snapshot_collects_every_leaf:
  assumes ne: "files \<noteq> []" and dist: "distinct (map fst files)"
  shows "\<exists>st. CreateSnapshot sha256 now (Inr files) = Inr st
            \<and> FileHashes st = (\<lambda>path. map_option Some (map_of files path))
            \<and> dom (FileHashes st) = fst ` set files"
proof -
  let ?leaves = "map leafNode (sort_key fst files)"
  obtain root where r: "buildMerkleTree sha256 ?leaves = Some root"
    using buildMerkleTree_Some [OF sorted_leaves_nonempty [OF ne]] by blast
  have c: "collectFileHashes (Some root) Map.empty = (\<lambda>path. map_option Some (map_of files path))"
    using collect_leaves [OF ne dist, of sha256] by (simp only: r)
  have d: "dom (\<lambda>path. map_option Some (map_of files path)) = fst ` set files"
  proof -
    have "dom (\<lambda>path. map_option Some (map_of files path)) = dom (map_of files)"
      by (auto simp: dom_def)
    then show ?thesis by (simp only: dom_map_of_conv_image_fst)
  qed
  have "CreateSnapshot sha256 now (Inr files)
          = Inr \<lparr>Timestamp = now, RootHash = Hash root,
                 FileHashes = (\<lambda>path. map_option Some (map_of files path))\<rparr>"
    by (simp add: CreateSnapshot_def GetTree_def createMerkleTreeFromFolder_sorted [OF ne] r c)
  then show ?thesis using d by simp
qed

theorem C4_witness:
  "\<exists>st. CreateSnapshot sumHash (7::nat) (Inr [(''c.txt'', [3]), (''a.txt'', [1]), (''b/x'', [2])]) = Inr st
      \<and> FileHashes st
          = (\<lambda>path. map_option Some
               (map_of [(''c.txt'', [3]), (''a.txt'', [1]), (''b/x'', [2])] path))
      \<and> dom (FileHashes st) = {''c.txt'', ''a.txt'', ''b/x''}"
  using C4_snapshot_collects_every_leaf
    [of "[(''c.txt'', [3]), (''a.txt'', [1]), (''b/x'', [2])]" sumHash 7]
  by simp

text \<open>
  C5. The claim that equal root digests make the change list empty, evaluated on a
  renamed file: the folder holds one file with digest \<open>d\<close>, named \<open>a.txt\<close> in the old
  snapshot and \<open>b.txt\<close> in the new one. The two root digests are equal, and
  CompareSnapshots reports one Added and one Deleted record.
\<close>

theorem C5_rename_keeps_root_digest:
  "\<exists>oldState newState.
      CreateSnapshot sha256 t1 (Inr [(''a.txt'', d)]) = Inr oldState
    \<and> CreateSnapshot sha256 t2 (Inr [(''b.txt'', d)]) = Inr newState
    \<and> RootHash oldState = RootHash newState
    \<and> ranges (FileHashes newState) [(''b.txt'', Some d)]
    \<and> ranges (FileHashes oldState) [(''a.txt'', Some d)]
    \<and> Changes (CompareSnapshots [(''b.txt'', Some d)] [(''b.txt'', Some d)] [(''a.txt'', Some d)]
                 oldState newState)
        = [\<lparr>FileName = ''b.txt'', ChangeType = Added, OldHash = None, NewHash = Some d\<rparr>,
           \<lparr>FileName = ''a.txt'', ChangeType = Deleted, OldHash = Some d, NewHash = None\<rparr>]"
  by (simp add: CreateSnapshot_def GetTree_def createMerkleTreeFromFolder_def
      buildMerkleTree_single leafNode_def ranges_def CompareSnapshots_def)

section \<open>Properties of the comparison\<close>

lemma equalLoop_iff:
  "length h1 = length h2 \<Longrightarrow> equalLoop h1 h2 i \<longleftrightarrow> drop i h1 = drop i h2"
proof (induction h1 h2 i rule: equalLoop.induct)
  case (1 h1 h2 i)
  show ?case
  proof (cases "i < length h1")
    case False
    with "1.prems" show ?thesis by (simp add: equalLoop.simps [of h1 h2 i])
  next
    case True
    with "1.prems" have d1: "drop i h1 = h1 ! i # drop (i + 1) h1"
      and d2: "drop i h2 = h2 ! i # drop (i + 1) h2"
      by (simp_all add: Cons_nth_drop_Suc)
    show ?thesis
    proof (cases "h1 ! i = h2 ! i")
      case False
      with True show ?thesis by (simp add: equalLoop.simps [of h1 h2 i] d1 d2)
    next
      case eq: True
      have "equalLoop h1 h2 (i + 1) \<longleftrightarrow> drop (i + 1) h1 = drop (i + 1) h2"
        using "1.IH" [OF True _ "1.prems"] True eq by simp
      with True eq show ?thesis by (simp add: equalLoop.simps [of h1 h2 i] d1 d2)
    qed
  qed
qed

lemma equalHashes_iff: "equalHashes h1 h2 \<longleftrightarrow> elems h1 = elems h2"
  by (auto simp: equalHashes_def equalLoop_iff)

lemma modifiedLoop_concat:
  "modifiedLoop oldHashes kvs changes = changes @ concat (map (modifiedRecs oldHashes) kvs)"
  by (induction oldHashes kvs changes rule: modifiedLoop.induct)
     (simp_all add: modifiedRecs_def equalHashes_iff split: option.splits)

lemma addedLoop_concat:
  "addedLoop oldHashes kvs changes = changes @ concat (map (addedRecs oldHashes) kvs)"
  by (induction oldHashes kvs changes rule: addedLoop.induct)
     (simp_all add: addedRecs_def split: option.splits)

lemma deletedLoop_concat:
  "deletedLoop newHashes kvs changes = changes @ concat (map (deletedRecs newHashes) kvs)"
  by (induction newHashes kvs changes rule: deletedLoop.induct)
     (simp_all add: deletedRecs_def split: option.splits)

lemma filter_concat_keyed:
  assumes "distinct (map fst kvs)"
    and "\<And>kv c. c \<in> set (g kv) \<Longrightarrow> FileName c = fst kv"
  shows "filter (\<lambda>c. FileName c = p) (concat (map g kvs))
           = (case map_of kvs p of None \<Rightarrow> [] | Some v \<Rightarrow> g (p, v))"
  using assms(1)
proof (induction kvs)
  case Nil
  show ?case by simp
next
  case (Cons kv kvs)
  obtain k v where kv: "kv = (k, v)" by (cases kv)
  have own: "filter (\<lambda>c. FileName c = p) (g (k, v)) = (if k = p then g (k, v) else [])"
    using assms(2) [of _ "(k, v)"] by (auto simp: filter_empty_conv intro: filter_True)
  show ?case
  proof (cases "k = p")
    case True
    with Cons.prems kv have "map_of kvs p = None"
      by (simp add: map_of_eq_None_iff)
    with Cons kv True own show ?thesis by simp
  next
    case False
    with Cons kv own show ?thesis by simp
  qed
qed

lemma FileName_modifiedRecs: "c \<in> set (modifiedRecs m kv) \<Longrightarrow> FileName c = fst kv"
  by (auto simp: modifiedRecs_def split: option.splits if_splits)

lemma FileName_addedRecs: "c \<in> set (addedRecs m kv) \<Longrightarrow> FileName c = fst kv"
  by (auto simp: addedRecs_def split: option.splits)

lemma FileName_deletedRecs: "c \<in> set (deletedRecs m kv) \<Longrightarrow> FileName c = fst kv"
  by (auto simp: deletedRecs_def split: option.splits)

lemma distinct_by_filter:
  "(\<And>p. length (filter (\<lambda>c. f c = p) cs) \<le> 1) \<Longrightarrow> distinct (map f cs)"
proof (induction cs)
  case Nil
  show ?case by simp
next
  case (Cons c cs)
  have "length (filter (\<lambda>c. f c = p) cs) \<le> 1" for p
    using Cons.prems [of p] by (simp split: if_splits)
  then have "distinct (map f cs)" by (rule Cons.IH)
  moreover have "f c \<notin> f ` set cs"
  proof
    assume "f c \<in> f ` set cs"
    then obtain c' where "c' \<in> set cs" "f c' = f c" by auto
    then have "filter (\<lambda>x. f x = f c) cs \<noteq> []" by (auto simp: filter_empty_conv)
    then have "0 < length (filter (\<lambda>x. f x = f c) cs)" by simp
    with Cons.prems [of "f c"] show False by simp
  qed
  ultimately show ?case by simp
qed

text \<open>
  C2. Whatever the orders in which the three loops visit the two maps, the records of
  the report that carry a given path are: one Modified record with both digests when the
  path is in both maps with byte-wise unequal digests; one Added record with only the
  new digest when the path is in the new map only; one Deleted record with only the old
  digest when it is in the old map only; none when it is in both maps with byte-wise
  equal digests (or in neither). Hence no two records of the report carry the same path.
\<close>

theorem C2_compare:
  assumes v1: "ranges (FileHashes newState) visitNew1"
    and v2: "ranges (FileHashes newState) visitNew2"
    and v3: "ranges (FileHashes oldState) visitOld"
  shows "filter (\<lambda>c. FileName c = path)
           (Changes (CompareSnapshots visitNew1 visitNew2 visitOld oldState newState))
         = (case (FileHashes oldState path, FileHashes newState path) of
              (Some oldHash, Some newHash) \<Rightarrow>
                if elems oldHash \<noteq> elems newHash
                then [\<lparr>FileName = path, ChangeType = Modified,
                       OldHash = oldHash, NewHash = newHash\<rparr>]
                else []
            | (None, Some newHash) \<Rightarrow>
                [\<lparr>FileName = path, ChangeType = Added, OldHash = None, NewHash = newHash\<rparr>]
            | (Some oldHash, None) \<Rightarrow>
                [\<lparr>FileName = path, ChangeType = Deleted, OldHash = oldHash, NewHash = None\<rparr>]
            | (None, None) \<Rightarrow> [])
       \<and> distinct (map FileName
           (Changes (CompareSnapshots visitNew1 visitNew2 visitOld oldState newState)))"
proof -
  let ?old = "FileHashes oldState" and ?new = "FileHashes newState"
  let ?cs = "Changes (CompareSnapshots visitNew1 visitNew2 visitOld oldState newState)"
  let ?spec = "\<lambda>path. (case (?old path, ?new path) of
              (Some oldHash, Some newHash) \<Rightarrow>
                if elems oldHash \<noteq> elems newHash
                then [\<lparr>FileName = path, ChangeType = Modified,
                       OldHash = oldHash, NewHash = newHash\<rparr>]
                else []
            | (None, Some newHash) \<Rightarrow>
                [\<lparr>FileName = path, ChangeType = Added, OldHash = None, NewHash = newHash\<rparr>]
            | (Some oldHash, None) \<Rightarrow>
                [\<lparr>FileName = path, ChangeType = Deleted, OldHash = oldHash, NewHash = None\<rparr>]
            | (None, None) \<Rightarrow> [])"
  have cs: "?cs = concat (map (modifiedRecs ?old) visitNew1)
              @ concat (map (addedRecs ?old) visitNew2)
              @ concat (map (deletedRecs ?new) visitOld)"
    by (simp add: CompareSnapshots_def modifiedLoop_concat addedLoop_concat deletedLoop_concat)
  have m: "filter (\<lambda>c. FileName c = p) (concat (map (modifiedRecs ?old) visitNew1))
             = (case ?new p of None \<Rightarrow> [] | Some v \<Rightarrow> modifiedRecs ?old (p, v))" for p
    using v1 filter_concat_keyed [of visitNew1 "modifiedRecs ?old" p]
    by (simp add: ranges_def FileName_modifiedRecs)
  have a: "filter (\<lambda>c. FileName c = p) (concat (map (addedRecs ?old) visitNew2))
             = (case ?new p of None \<Rightarrow> [] | Some v \<Rightarrow> addedRecs ?old (p, v))" for p
    using v2 filter_concat_keyed [of visitNew2 "addedRecs ?old" p]
    by (simp add: ranges_def FileName_addedRecs)
  have d: "filter (\<lambda>c. FileName c = p) (concat (map (deletedRecs ?new) visitOld))
             = (case ?old p of None \<Rightarrow> [] | Some v \<Rightarrow> deletedRecs ?new (p, v))" for p
    using v3 filter_concat_keyed [of visitOld "deletedRecs ?new" p]
    by (simp add: ranges_def FileName_deletedRecs)
  have each: "filter (\<lambda>c. FileName c = p) ?cs = ?spec p" for p
    unfolding cs filter_append m a d
    by (simp add: modifiedRecs_def addedRecs_def deletedRecs_def split: option.splits)
  have "length (filter (\<lambda>c. FileName c = p) ?cs) \<le> 1" for p
    unfolding each by (simp split: option.splits)
  then have "distinct (map FileName ?cs)" by (rule distinct_by_filter)
  with each [of path] show ?thesis by simp
qed

theorem C2_witness:
  "filter (\<lambda>c. FileName c = ''b'')
     (Changes (CompareSnapshots
        [(''a'', Some [1]), (''b'', Some [9]), (''c'', Some [3])]
        [(''a'', Some [1]), (''b'', Some [9]), (''c'', Some [3])]
        [(''d'', Some [4]), (''b'', Some [2]), (''a'', Some [1])]
        \<lparr>Timestamp = 1::nat, RootHash = Some [5],
          FileHashes = map_of [(''d'', Some [4]), (''b'', Some [2]), (''a'', Some [1])]\<rparr>
        \<lparr>Timestamp = 2, RootHash = Some [6],
          FileHashes = map_of [(''a'', Some [1]), (''b'', Some [9]), (''c'', Some [3])]\<rparr>))
   = [\<lparr>FileName = ''b'', ChangeType = Modified, OldHash = Some [2], NewHash = Some [9]\<rparr>]
   \<and> distinct (map FileName
       (Changes (CompareSnapshots
        [(''a'', Some [1]), (''b'', Some [9]), (''c'', Some [3])]
        [(''a'', Some [1]), (''b'', Some [9]), (''c'', Some [3])]
        [(''d'', Some [4]), (''b'', Some [2]), (''a'', Some [1])]
        \<lparr>Timestamp = 1::nat, RootHash = Some [5],
          FileHashes = map_of [(''d'', Some [4]), (''b'', Some [2]), (''a'', Some [1])]\<rparr>
        \<lparr>Timestamp = 2, RootHash = Some [6],
          FileHashes = map_of [(''a'', Some [1]), (''b'', Some [9]), (''c'', Some [3])]\<rparr>)))"
  using C2_compare
    [of "\<lparr>Timestamp = 2::nat, RootHash = Some [6],
          FileHashes = map_of [(''a'', Some [1]), (''b'', Some [9]), (''c'', Some [3])]\<rparr>"
        "[(''a'', Some [1]), (''b'', Some [9]), (''c'', Some [3])]"
        "[(''a'', Some [1]), (''b'', Some [9]), (''c'', Some [3])]"
        "\<lparr>Timestamp = 1::nat, RootHash = Some [5],
          FileHashes = map_of [(''d'', Some [4]), (''b'', Some [2]), (''a'', Some [1])]\<rparr>"
        "[(''d'', Some [4]), (''b'', Some [2]), (''a'', Some [1])]" "''b''"]
  by (simp add: ranges_def elems_def)

section \<open>Properties of storing and loading\<close>








text \<open>
  C10. A stored file that holds the four-column header and no data row loads without
  error into a snapshot with the zero time, the nil root digest and an empty FileHashes
  map.
\<close>

theorem C10_header_only_file:
  "LoadSnapshot T (Inr [Record [''timestamp'', ''root_hash'', ''file_path'', ''file_hash'']])
     = Inr \<lparr>Timestamp = zeroTime T, RootHash = None, FileHashes = Map.empty\<rparr>"
  by (simp add: LoadSnapshot_def expectedHeader_def)

lemma validateHeader_expected:
  assumes "4 \<le> length header"
  shows "validateHeader header 0 expectedHeader
           = (if take 4 header = expectedHeader then None else Some (Errorf ''invalid CSV header''))"
proof -
  from assms obtain a b c d rest where h: "header = a # b # c # d # rest"
    by (cases header rule: list.exhaust; simp)
       (metis Suc_le_length_iff numeral_3_eq_3 One_nat_def Suc_1 length_Cons list.size(3) not_less_eq_eq le0)
  show ?thesis unfolding h by (simp add: expectedHeader_def)
qed








lemma readRows_fields:
  assumes "4 \<le> n" and "\<forall>row \<in> set rows. length row = n"
  shows "readRows T n (map Record rows) st
           = Inr \<lparr>Timestamp = foldl (scanTime T) (Timestamp st) rows,
                  RootHash =
                    (case RootHash st of
                       Some r \<Rightarrow> Some r
                     | None \<Rightarrow>
                         (case rows of
                            [] \<Rightarrow> None
                          | row # _ \<Rightarrow> Some (fst (DecodeString (row ! 1))))),
                  FileHashes =
                    fold store (map (\<lambda>row. (row ! 2, Some (fst (DecodeString (row ! 3))))) rows)
                      (FileHashes st)\<rparr>"
  using assms(2)
proof (induction rows arbitrary: st)
  case Nil
  show ?case by (cases st) (simp split: option.splits)
next
  case (Cons row rows)
  let ?next = "\<lparr>Timestamp = scanTime T (Timestamp st) row,
                RootHash = (case RootHash st of
                              Some r \<Rightarrow> Some r
                            | None \<Rightarrow> Some (fst (DecodeString (row ! 1)))),
                FileHashes = store (row ! 2, Some (fst (DecodeString (row ! 3)))) (FileHashes st)\<rparr>"
  from Cons.prems assms(1) have len: "length row = n" "\<not> length row < 4" by simp_all
  have step: "readRows T n (Record row # map Record rows) st = readRows T n (map Record rows) ?next"
    using len
    by (cases st) (auto simp: Let_def scanTime_def parsedTime_def split: option.splits)
  have ih: "readRows T n (map Record rows) ?next
              = Inr \<lparr>Timestamp = foldl (scanTime T) (Timestamp ?next) rows,
                     RootHash =
                       (case RootHash ?next of
                          Some r \<Rightarrow> Some r
                        | None \<Rightarrow>
                            (case rows of
                               [] \<Rightarrow> None
                             | row # _ \<Rightarrow> Some (fst (DecodeString (row ! 1))))),
                     FileHashes =
                       fold store (map (\<lambda>row. (row ! 2, Some (fst (DecodeString (row ! 3))))) rows)
                         (FileHashes ?next)\<rparr>"
    using Cons.prems by (intro Cons.IH) simp
  have "readRows T n (map Record (row # rows)) st = readRows T n (map Record rows) ?next"
    using step by simp
  then show ?case unfolding ih by (simp split: option.splits)
qed


lemma LoadSnapshot_valid_header:
  assumes "4 \<le> length header" and "take 4 header = expectedHeader"
  shows "LoadSnapshot T (Inr (Record header # rest))
           = readRows T (length header) rest
               \<lparr>Timestamp = zeroTime T, RootHash = None, FileHashes = Map.empty\<rparr>"
  using assms by (simp add: LoadSnapshot_def validateHeader_expected)



lemma unaryClock_simps:
  "zeroTime unaryClock = (0, 0)"
  "IsZero unaryClock t = (t = (0, 0))"
  "TruncateSecond unaryClock t = (fst t, 0)"
  "ParseRFC3339 unaryClock (FormatRFC3339 unaryClock t) = Some (fst t, 0)"
  "ParseRFC3339 unaryClock ''yesterday'' = None"
  "ParseRFC3339 unaryClock ''sss'' = Some (3, 0)"
  "ParseRFC3339 unaryClock ''ss'' = Some (2, 0)"
  "FormatRFC3339 unaryClock (3, n) = ''sss''"
  by (simp_all add: unaryClock_def list_all_iff numeral_3_eq_3)





lemma validateHeader_mismatch:
  assumes "\<exists>k < length hs. i + k < length header \<and> header ! (i + k) \<noteq> hs ! k"
  shows "validateHeader header i hs = Some (Errorf ''invalid CSV header'')"
  using assms
proof (induction hs arbitrary: i)
  case Nil
  then show ?case by simp
next
  case (Cons h hs)
  then obtain k where k: "k < length (h # hs)" "i + k < length header"
    "header ! (i + k) \<noteq> (h # hs) ! k"
    by blast
  then have inside: "\<not> length header \<le> i" by simp
  show ?case
  proof (cases "header ! i = h")
    case False
    with inside show ?thesis by simp
  next
    case True
    with k obtain k' where k': "k = Suc k'" by (cases k) auto
    with k have "\<exists>j < length hs. (i + 1) + j < length header \<and> header ! ((i + 1) + j) \<noteq> hs ! j"
      by auto
    then have "validateHeader header (i + 1) hs = Some (Errorf ''invalid CSV header'')"
      by (rule Cons.IH)
    with inside True show ?thesis by simp
  qed
qed

lemma readRows_step:
  assumes "length row = n" and "4 \<le> n"
  shows "\<exists>st'. readRows T n (Record row # rest) st = readRows T n rest st'"
  using assms by (simp add: Let_def) blast

lemma readRows_after:
  assumes "4 \<le> n" and "\<forall>row \<in> set rows. length row = n"
  shows "\<exists>st'. readRows T n (map Record rows @ rest) st = readRows T n rest st'"
  using assms(2)
proof (induction rows arbitrary: st)
  case Nil
  show ?case by auto
next
  case (Cons row rows)
  then have "length row = n" by simp
  then obtain st1 where "readRows T n (Record row # (map Record rows @ rest)) st
                           = readRows T n (map Record rows @ rest) st1"
    using readRows_step [OF _ assms(1)] by blast
  moreover have "\<exists>st'. readRows T n (map Record rows @ rest) st1 = readRows T n rest st'"
    using Cons.prems by (intro Cons.IH) simp
  ultimately show ?case by simp
qed

lemma foldl_scanTime_fixed: "\<not> IsZero T t \<Longrightarrow> foldl (scanTime T) t rows = t"
  by (induction rows) (simp_all add: scanTime_def)

lemma foldl_scanTime_none:
  assumes "\<forall>row \<in> set rows. ParseRFC3339 T (row ! 0) = None"
  shows "foldl (scanTime T) (zeroTime T) rows = zeroTime T"
  using assms
proof (induction rows)
  case Nil
  show ?case by simp
next
  case (Cons row rows)
  then have "scanTime T (zeroTime T) row = zeroTime T"
    by (simp add: scanTime_def parsedTime_def)
  with Cons show ?case by simp
qed

lemma foldl_scanTime_zero:
  assumes "IsZero T (zeroTime T)" and "IsZero T t"
    and "\<forall>r \<in> set rows. \<forall>t'. ParseRFC3339 T (r ! 0) = Some t' \<longrightarrow> IsZero T t'"
  shows "IsZero T (foldl (scanTime T) t rows)"
  using assms(2,3)
proof (induction rows arbitrary: t)
  case Nil
  then show ?case by simp
next
  case (Cons row rows)
  have "IsZero T (scanTime T t row)"
    using Cons.prems assms(1)
    by (cases "ParseRFC3339 T (row ! 0)") (simp_all add: scanTime_def parsedTime_def)
  then have "IsZero T (foldl (scanTime T) (scanTime T t row) rows)"
    using Cons.prems by (intro Cons.IH) simp_all
  then show ?case by simp
qed

lemma foldl_scanTime_first:
  assumes z: "IsZero T (zeroTime T)"
    and quiet: "\<forall>r \<in> set before. \<forall>t'. ParseRFC3339 T (r ! 0) = Some t' \<longrightarrow> IsZero T t'"
    and good: "ParseRFC3339 T (row ! 0) = Some t" "\<not> IsZero T t"
  shows "foldl (scanTime T) (zeroTime T) (before @ row # after) = t"
proof -
  let ?t1 = "foldl (scanTime T) (zeroTime T) before"
  have "IsZero T ?t1" using z z quiet by (rule foldl_scanTime_zero)
  then have "scanTime T ?t1 row = t" using good by (simp add: scanTime_def parsedTime_def)
  then show ?thesis using good(2) by (simp add: foldl_scanTime_fixed)
qed

lemma LoadSnapshot_rows:
  assumes h4: "4 \<le> length header" and hd: "take 4 header = expectedHeader"
    and rs: "\<forall>row \<in> set rows. length row = length header"
  shows "LoadSnapshot T (Inr (Record header # map Record rows))
           = Inr \<lparr>Timestamp = foldl (scanTime T) (zeroTime T) rows,
                  RootHash = (case rows of
                                [] \<Rightarrow> None
                              | row # _ \<Rightarrow> Some (fst (DecodeString (row ! 1)))),
                  FileHashes =
                    map_of (rev (map (\<lambda>row. (row ! 2, Some (fst (DecodeString (row ! 3)))))
                                   rows))\<rparr>"
  using readRows_fields [OF h4 rs, of T
      "\<lparr>Timestamp = zeroTime T, RootHash = None, FileHashes = Map.empty\<rparr>"]
  by (simp add: LoadSnapshot_valid_header [OF h4 hd] fold_upd_map_add)

text \<open>
  C9. LoadSnapshot returns as errors the failure to open the file, an empty file, a
  first line the CSV reader rejects and a header that differs from the expected names
  in one of its first four columns. After a header whose first four columns are the
  expected names, and records that all have as many fields as the header, it returns as
  errors a line the CSV reader rejects and a record with another number of fields. A file
  with such a header and such records alone always yields a snapshot, whatever the
  columns hold, since the errors of \<open>time.Parse\<close> and \<open>hex.DecodeString\<close> are dropped:
  its root digest is what was decoded from the root_hash column of the first record
  before the first invalid digit, every record stores what was decoded from its file_hash
  column under its file_path (a later record replaces an earlier one with the same path),
  and its timestamp is the zero time when no timestamp column parses, and the time of the
  first record whose timestamp column parses to a time that is not zero when there is
  one. FindLatestSnapshot returns the error "no previous state found for folder: ..."
  when no stored file matches; it passes on the error of a failed glob, which is another
  error.
\<close>

theorem C9_load_errors:
  "LoadSnapshot T (Inl err) = Inl err
   \<and> LoadSnapshot T (Inr []) = Inl EOF
   \<and> LoadSnapshot T (Inr (Malformed # rest)) = Inl ErrCsvParse
   \<and> ((\<exists>i < length header. i < 4 \<and> header ! i \<noteq> expectedHeader ! i) \<longrightarrow>
        LoadSnapshot T (Inr (Record header # rest)) = Inl (Errorf ''invalid CSV header''))
   \<and> (4 \<le> length header \<and> take 4 header = expectedHeader
        \<and> (\<forall>row \<in> set rows. length row = length header) \<longrightarrow>
        LoadSnapshot T (Inr (Record header # map Record rows @ Malformed # rest)) = Inl ErrCsvParse
        \<and> (length bad \<noteq> length header \<longrightarrow>
             LoadSnapshot T (Inr (Record header # map Record rows @ Record bad # rest))
               = Inl ErrFieldCount)
        \<and> (\<exists>st. LoadSnapshot T (Inr (Record header # map Record rows)) = Inr st
              \<and> RootHash st
                  = (case rows of [] \<Rightarrow> None | row # _ \<Rightarrow> Some (fst (DecodeString (row ! 1))))
              \<and> FileHashes st
                  = map_of (rev (map (\<lambda>row. (row ! 2, Some (fst (DecodeString (row ! 3)))))
                                   rows))
              \<and> ((\<forall>row \<in> set rows. ParseRFC3339 T (row ! 0) = None) \<longrightarrow>
                    Timestamp st = zeroTime T)
              \<and> (IsZero T (zeroTime T) \<and> rows = before @ row # after
                    \<and> (\<forall>r \<in> set before. \<forall>t'. ParseRFC3339 T (r ! 0) = Some t' \<longrightarrow> IsZero T t')
                    \<and> ParseRFC3339 T (row ! 0) = Some t \<and> \<not> IsZero T t \<longrightarrow>
                    Timestamp st = t)))
   \<and> FindLatestSnapshot folderName (Inr [])
       = Inl (Errorf (''no previous state found for folder: '' @ folderName))
   \<and> FindLatestSnapshot folderName (Inl err) = Inl err
   \<and> FindLatestSnapshot folderName (Inr []) \<noteq> FindLatestSnapshot folderName (Inl ErrBadPattern)"
proof (intro conjI impI)
  show "LoadSnapshot T (Inl err) = Inl err"
    and "LoadSnapshot T (Inr []) = Inl EOF"
    and "LoadSnapshot T (Inr (Malformed # rest)) = Inl ErrCsvParse"
    by (simp_all add: LoadSnapshot_def)
next
  assume "\<exists>i < length header. i < 4 \<and> header ! i \<noteq> expectedHeader ! i"
  then obtain i where "i < length header" "i < 4" "header ! i \<noteq> expectedHeader ! i"
    by blast
  moreover have "length expectedHeader = 4" by (simp add: expectedHeader_def)
  ultimately have "i < length expectedHeader \<and> 0 + i < length header
                     \<and> header ! (0 + i) \<noteq> expectedHeader ! i"
    by simp
  then have "\<exists>k < length expectedHeader. 0 + k < length header
               \<and> header ! (0 + k) \<noteq> expectedHeader ! k"
    by blast
  then have "validateHeader header 0 expectedHeader = Some (Errorf ''invalid CSV header'')"
    by (rule validateHeader_mismatch)
  then show "LoadSnapshot T (Inr (Record header # rest)) = Inl (Errorf ''invalid CSV header'')"
    by (simp add: LoadSnapshot_def)
next
  assume a: "4 \<le> length header \<and> take 4 header = expectedHeader
        \<and> (\<forall>row \<in> set rows. length row = length header)"
  then have h4: "4 \<le> length header" and hd: "take 4 header = expectedHeader"
    and rs: "\<forall>row \<in> set rows. length row = length header"
    by blast+
  let ?init = "\<lparr>Timestamp = zeroTime T, RootHash = None, FileHashes = Map.empty\<rparr>"
  obtain st1 where "readRows T (length header) (map Record rows @ Malformed # rest) ?init
                      = readRows T (length header) (Malformed # rest) st1"
    using readRows_after [OF h4 rs] by blast
  then show "LoadSnapshot T (Inr (Record header # map Record rows @ Malformed # rest))
               = Inl ErrCsvParse"
    by (simp add: LoadSnapshot_valid_header [OF h4 hd])
  let ?final = "\<lparr>Timestamp = foldl (scanTime T) (zeroTime T) rows,
               RootHash = (case rows of
                             [] \<Rightarrow> None
                           | row # _ \<Rightarrow> Some (fst (DecodeString (row ! 1)))),
               FileHashes =
                 map_of (rev (map (\<lambda>row. (row ! 2, Some (fst (DecodeString (row ! 3)))))
                                rows))\<rparr>"
  have load: "LoadSnapshot T (Inr (Record header # map Record rows)) = Inr ?final"
    using h4 hd rs by (rule LoadSnapshot_rows)
  have none: "(\<forall>row \<in> set rows. ParseRFC3339 T (row ! 0) = None) \<longrightarrow>
                Timestamp ?final = zeroTime T"
    by (simp add: foldl_scanTime_none)
  have first: "IsZero T (zeroTime T) \<and> rows = before @ row # after
                 \<and> (\<forall>r \<in> set before. \<forall>t'. ParseRFC3339 T (r ! 0) = Some t' \<longrightarrow> IsZero T t')
                 \<and> ParseRFC3339 T (row ! 0) = Some t \<and> \<not> IsZero T t \<longrightarrow>
                 Timestamp ?final = t"
  proof
    assume b: "IsZero T (zeroTime T) \<and> rows = before @ row # after
                 \<and> (\<forall>r \<in> set before. \<forall>t'. ParseRFC3339 T (r ! 0) = Some t' \<longrightarrow> IsZero T t')
                 \<and> ParseRFC3339 T (row ! 0) = Some t \<and> \<not> IsZero T t"
    then have "foldl (scanTime T) (zeroTime T) (before @ row # after) = t"
      by (intro foldl_scanTime_first) blast+
    with b show "Timestamp ?final = t" by simp
  qed
  show "\<exists>st. LoadSnapshot T (Inr (Record header # map Record rows)) = Inr st
              \<and> RootHash st
                  = (case rows of [] \<Rightarrow> None | row # _ \<Rightarrow> Some (fst (DecodeString (row ! 1))))
              \<and> FileHashes st
                  = map_of (rev (map (\<lambda>row. (row ! 2, Some (fst (DecodeString (row ! 3)))))
                                   rows))
              \<and> ((\<forall>row \<in> set rows. ParseRFC3339 T (row ! 0) = None) \<longrightarrow>
                    Timestamp st = zeroTime T)
              \<and> (IsZero T (zeroTime T) \<and> rows = before @ row # after
                    \<and> (\<forall>r \<in> set before. \<forall>t'. ParseRFC3339 T (r ! 0) = Some t' \<longrightarrow> IsZero T t')
                    \<and> ParseRFC3339 T (row ! 0) = Some t \<and> \<not> IsZero T t \<longrightarrow>
                    Timestamp st = t)"
    using load none first by (intro exI [of _ ?final]) simp
  assume b: "length bad \<noteq> length header"
  obtain st2 where "readRows T (length header) (map Record rows @ Record bad # rest) ?init
                      = readRows T (length header) (Record bad # rest) st2"
    using readRows_after [OF h4 rs] by blast
  then show "LoadSnapshot T (Inr (Record header # map Record rows @ Record bad # rest))
               = Inl ErrFieldCount"
    using b by (simp add: LoadSnapshot_valid_header [OF h4 hd])
next
  show "FindLatestSnapshot folderName (Inr [])
       = Inl (Errorf (''no previous state found for folder: '' @ folderName))"
    and "FindLatestSnapshot folderName (Inl err) = Inl err"
    and "FindLatestSnapshot folderName (Inr []) \<noteq> FindLatestSnapshot folderName (Inl ErrBadPattern)"
    by (simp_all add: FindLatestSnapshot_def)
qed

theorem C9_witness:
  "LoadSnapshot unaryClock (Inr [Record [''timestamp'', ''root'']])
     = Inl (Errorf ''invalid CSV header'')
   \<and> LoadSnapshot unaryClock
        (Inr (Record expectedHeader
               # map Record [[''yesterday'', ''zz'', ''a.txt'', ''0g''],
                             [''sss'', ''ab'', ''b.txt'', ''01'']]
               @ Malformed # []))
       = Inl ErrCsvParse
   \<and> LoadSnapshot unaryClock
        (Inr (Record expectedHeader
               # map Record [[''yesterday'', ''zz'', ''a.txt'', ''0g''],
                             [''sss'', ''ab'', ''b.txt'', ''01'']]
               @ Record [''sss'', ''ab''] # []))
       = Inl ErrFieldCount
   \<and> (\<exists>st. LoadSnapshot unaryClock
              (Inr (Record expectedHeader
                     # map Record [[''yesterday'', ''zz'', ''a.txt'', ''0g''],
                                   [''sss'', ''ab'', ''b.txt'', ''01'']]))
            = Inr st
          \<and> RootHash st = Some (fst (DecodeString ''zz''))
          \<and> Timestamp st = (3, 0))
   \<and> (\<exists>st. LoadSnapshot unaryClock
              (Inr (Record expectedHeader # map Record [[''yesterday'', ''zz'', ''a.txt'', ''0g'']]))
            = Inr st
          \<and> Timestamp st = (0, 0))"
proof -
  have h: "4 \<le> length expectedHeader" "take 4 expectedHeader = expectedHeader"
    "length expectedHeader = 4"
    by (simp_all add: expectedHeader_def)
  have short: "\<exists>i < length [''timestamp'', ''root'']. i < 4
                 \<and> [''timestamp'', ''root''] ! i \<noteq> expectedHeader ! i"
    by (rule exI [of _ 1]) (simp add: expectedHeader_def)
  have invalid: "LoadSnapshot unaryClock (Inr [Record [''timestamp'', ''root'']])
                   = Inl (Errorf ''invalid CSV header'')"
    using C9_load_errors
      [of unaryClock "OsError ''x''" "[]" "[''timestamp'', ''root'']" "[]" "[]" "[]" "[]" "[]"
          "(0, 0)" "''d''"]
      short
    by blast
  have two: "LoadSnapshot unaryClock
        (Inr (Record expectedHeader
               # map Record [[''yesterday'', ''zz'', ''a.txt'', ''0g''],
                             [''sss'', ''ab'', ''b.txt'', ''01'']]
               @ Malformed # []))
       = Inl ErrCsvParse
   \<and> LoadSnapshot unaryClock
        (Inr (Record expectedHeader
               # map Record [[''yesterday'', ''zz'', ''a.txt'', ''0g''],
                             [''sss'', ''ab'', ''b.txt'', ''01'']]
               @ Record [''sss'', ''ab''] # []))
       = Inl ErrFieldCount
   \<and> (\<exists>st. LoadSnapshot unaryClock
              (Inr (Record expectedHeader
                     # map Record [[''yesterday'', ''zz'', ''a.txt'', ''0g''],
                                   [''sss'', ''ab'', ''b.txt'', ''01'']]))
            = Inr st
          \<and> RootHash st = Some (fst (DecodeString ''zz''))
          \<and> Timestamp st = (3, 0))"
    using C9_load_errors
      [of unaryClock "OsError ''x''" "[]" expectedHeader
          "[[''yesterday'', ''zz'', ''a.txt'', ''0g''], [''sss'', ''ab'', ''b.txt'', ''01'']]"
          "[''sss'', ''ab'']"
          "[[''yesterday'', ''zz'', ''a.txt'', ''0g'']]"
          "[''sss'', ''ab'', ''b.txt'', ''01'']" "[]" "(3, 0)" "''d''"]
    by (simp add: h unaryClock_simps) blast
  have one: "\<exists>st. LoadSnapshot unaryClock
              (Inr (Record expectedHeader # map Record [[''yesterday'', ''zz'', ''a.txt'', ''0g'']]))
            = Inr st
          \<and> Timestamp st = (0, 0)"
    using C9_load_errors
      [of unaryClock "OsError ''x''" "[]" expectedHeader
          "[[''yesterday'', ''zz'', ''a.txt'', ''0g'']]" "[]" "[]" "[]" "[]" "(0, 0)" "''d''"]
    by (simp add: h unaryClock_simps) blast
  from invalid two one show ?thesis by blast
qed

text \<open>
  A record whose timestamp does not parse and whose two digest columns are not
  hexadecimal is loaded without error.
\<close>

theorem C9_counterexample:
  "snd (DecodeString ''zz'') = Some (InvalidByteError CHR ''z'')
   \<and> snd (DecodeString ''0g'') = Some (InvalidByteError CHR ''g'')
   \<and> ParseRFC3339 unaryClock ''yesterday'' = None
   \<and> LoadSnapshot unaryClock
        (Inr [Record expectedHeader, Record [''yesterday'', ''zz'', ''a.txt'', ''0g'']])
       = Inr \<lparr>Timestamp = (0, 0), RootHash = Some [], FileHashes = [''a.txt'' \<mapsto> Some []]\<rparr>"
  by (simp add: LoadSnapshot_def expectedHeader_def DecodeString_def fromHexChar_def
      unaryClock_simps)

section \<open>Empty folders and single files\<close>

text \<open>
  C6. When the traversal enumerates no regular file, createMerkleTreeFromFolder, GetTree
  and CreateSnapshot return the error "no files found in folder" and no tree or
  snapshot.
\<close>

theorem C6_empty_folder_is_error:
  "createMerkleTreeFromFolder sha256 (Inr []) = Inl (Errorf ''no files found in folder'')
   \<and> GetTree sha256 (Inr []) = Inl (Errorf ''no files found in folder'')
   \<and> CreateSnapshot sha256 now (Inr []) = Inl (Errorf ''no files found in folder'')"
  by (simp add: createMerkleTreeFromFolder_def GetTree_def CreateSnapshot_def)

text \<open>
  C7. For a single file the root of the built tree is the leaf node of that file, so the
  root digest of the tree and of the snapshot is the file's content digest; the hash
  function is not applied.
\<close>

theorem C7_single_file_root_is_leaf:
  "createMerkleTreeFromFolder sha256 (Inr [(path, digest)])
     = Inr \<lparr>Root = Some (leafNode (path, digest))\<rparr>
   \<and> (\<exists>st. CreateSnapshot sha256 now (Inr [(path, digest)]) = Inr st
          \<and> RootHash st = Some digest)"
  by (simp add: createMerkleTreeFromFolder_def GetTree_def CreateSnapshot_def
      buildMerkleTree.simps [of _ "[x]" for x] leafNode_def)

end
